theory Spec2Isabelle
  imports Complex_Main
begin

section \<open>Single-player Tic Tac Toe: the game state and its operations\<close>

text \<open>
  The embedding follows \<^verbatim>\<open>src/script.js\<close>. A cell of \<^verbatim>\<open>boardState\<close> holds one of the
  three strings \<^verbatim>\<open>''\<close>, \<^verbatim>\<open>'X'\<close> and \<^verbatim>\<open>'O'\<close>; they are the constructors
  \<open>Empty\<close>, \<open>MarkX\<close> and \<open>MarkO\<close> of \<open>mark\<close>. \<^verbatim>\<open>PLAYER\<close> is \<^verbatim>\<open>'X'\<close> and \<^verbatim>\<open>AI\<close> is \<^verbatim>\<open>'O'\<close>.
\<close>

datatype mark = Empty | MarkX | MarkO

abbreviation PLAYER :: mark where "PLAYER \<equiv> MarkX"
abbreviation AI :: mark where "AI \<equiv> MarkO"

type_synonym board = "mark list"

text \<open>The global variables \<^verbatim>\<open>boardState\<close>, \<^verbatim>\<open>gameActive\<close> and \<^verbatim>\<open>isProcessing\<close>.\<close>

record state =
  boardState :: board
  gameActive :: bool
  isProcessing :: bool

text \<open>
  What the functions do to the page (and to the timer queue) is returned as a list of
  effects, in the order of the calls: \<^verbatim>\<open>renderMark(index, player)\<close>, an assignment to
  \<^verbatim>\<open>statusEl.textContent\<close> (with the class changes that go with it), the three cells that
  \<^verbatim>\<open>highlightWinningCells\<close> marks, \<^verbatim>\<open>clearBoardVisuals()\<close> and
  \<^verbatim>\<open>setTimeout(..., THINK_DELAY)\<close>.
\<close>

datatype status_text = YourTurn | AIsTurn | YouWin | YouLose | ItsADraw

datatype effect =
    RenderMark nat mark
  | SetStatus status_text
  | HighlightWin nat nat nat
  | ClearBoardVisuals
  | SetTimeout

text \<open>The value of \<^verbatim>\<open>checkWinner()\<close>: \<^verbatim>\<open>'X'\<close> or \<^verbatim>\<open>'O'\<close>, \<^verbatim>\<open>'draw'\<close>, or \<^verbatim>\<open>null\<close>.\<close>

datatype outcome = Winner mark | Draw | Continue

definition winConditions :: "(nat \<times> nat \<times> nat) list" where
  "winConditions =
     [(0,1,2),(3,4,5),(6,7,8),
      (0,3,6),(1,4,7),(2,5,8),
      (0,4,8),(2,4,6)]"

subsection \<open>checkWinner\<close>

text \<open>
  The \<^verbatim>\<open>for\<close> loop of \<^verbatim>\<open>checkWinner\<close> over the remaining combinations. A string is truthy
  when it is not \<^verbatim>\<open>''\<close>.
\<close>

fun checkWinner_loop :: "(nat \<times> nat \<times> nat) list \<Rightarrow> board \<Rightarrow> mark option" where
  "checkWinner_loop [] bs = None"
| "checkWinner_loop ((a, b, c) # rest) bs =
     (if bs ! a \<noteq> Empty \<and> bs ! a = bs ! b \<and> bs ! b = bs ! c
      then Some (bs ! a)
      else checkWinner_loop rest bs)"

definition checkWinner :: "board \<Rightarrow> outcome" where
  "checkWinner bs =
     (case checkWinner_loop winConditions bs of
        Some m \<Rightarrow> Winner m
      | None \<Rightarrow> if Empty \<notin> set bs then Draw else Continue)"

subsection \<open>finishGame and highlightWinningCells\<close>

fun highlightWinningCells_loop :: "(nat \<times> nat \<times> nat) list \<Rightarrow> board \<Rightarrow> mark \<Rightarrow> effect list" where
  "highlightWinningCells_loop [] bs player = []"
| "highlightWinningCells_loop ((a, b, c) # rest) bs player =
     (if bs ! a = player \<and> bs ! b = player \<and> bs ! c = player
      then [HighlightWin a b c]
      else highlightWinningCells_loop rest bs player)"

definition highlightWinningCells :: "board \<Rightarrow> mark \<Rightarrow> effect list" where
  "highlightWinningCells bs player = highlightWinningCells_loop winConditions bs player"

definition finishGame :: "state \<Rightarrow> outcome \<Rightarrow> state \<times> effect list" where
  "finishGame s result =
     (let s' = s\<lparr>gameActive := False, isProcessing := False\<rparr>
      in if result = Winner PLAYER
         then (s', SetStatus YouWin # highlightWinningCells (boardState s') PLAYER)
         else if result = Winner AI
         then (s', SetStatus YouLose # highlightWinningCells (boardState s') AI)
         else (s', [SetStatus ItsADraw]))"

subsection \<open>handlePlayerMove\<close>

text \<open>
  \<^verbatim>\<open>boardState[index]\<close> for an index that comes from outside: \<open>None\<close> is \<^verbatim>\<open>undefined\<close>,
  what JavaScript reads at an index that is not an element of the array. The index is an
  integer here; a number that is not one (\<^verbatim>\<open>NaN\<close>, a fraction) reads \<^verbatim>\<open>undefined\<close> as well
  and is not modelled.
\<close>

definition cell_at :: "board \<Rightarrow> int \<Rightarrow> mark option" where
  "cell_at bs index =
     (if 0 \<le> index \<and> nat index < length bs then Some (bs ! nat index) else None)"

definition handlePlayerMove :: "state \<Rightarrow> int \<Rightarrow> state \<times> effect list" where
  "handlePlayerMove s index =
     (if \<not> gameActive s \<or> isProcessing s then (s, [])
      else if cell_at (boardState s) index \<noteq> Some Empty then (s, [])
      else
        let i = nat index;
            s1 = s\<lparr>boardState := (boardState s)[i := PLAYER]\<rparr>;
            result = checkWinner (boardState s1)
        in if result = Winner PLAYER then
             (let (s2, es) = finishGame s1 (Winner PLAYER) in (s2, RenderMark i PLAYER # es))
           else if result = Draw then
             (let (s2, es) = finishGame s1 Draw in (s2, RenderMark i PLAYER # es))
           else
             (s1\<lparr>isProcessing := True\<rparr>, [RenderMark i PLAYER, SetStatus AIsTurn, SetTimeout]))"

subsection \<open>aiMove\<close>

text \<open>
  The helper \<^verbatim>\<open>findWinningMove\<close>, a closure over \<^verbatim>\<open>boardState\<close>. \<^verbatim>\<open>line.find\<close> gives
  \<^verbatim>\<open>undefined\<close> when no element satisfies the test; under \<^verbatim>\<open>countEmpty === 1\<close> one does
  (lemma \<open>find_line_step\<close> below), so \<open>None\<close> here is always the \<^verbatim>\<open>null\<close> of the last
  line.
\<close>

fun findWinningMove_loop :: "(nat \<times> nat \<times> nat) list \<Rightarrow> board \<Rightarrow> mark \<Rightarrow> nat option" where
  "findWinningMove_loop [] bs player = None"
| "findWinningMove_loop ((a, b, c) # rest) bs player =
     (let line = [a, b, c];
          marks = map (\<lambda>i. bs ! i) line;
          countPlayer = length (filter (\<lambda>m. m = player) marks);
          countEmpty = length (filter (\<lambda>m. m = Empty) marks)
      in if countPlayer = 2 \<and> countEmpty = 1
         then find (\<lambda>i. bs ! i = Empty) line
         else findWinningMove_loop rest bs player)"

definition findWinningMove :: "board \<Rightarrow> mark \<Rightarrow> nat option" where
  "findWinningMove bs player = findWinningMove_loop winConditions bs player"

definition emptyIndices :: "board \<Rightarrow> nat list" where
  "emptyIndices bs = filter (\<lambda>i. bs ! i = Empty) [0 ..< length bs]"

text \<open>
  \<^verbatim>\<open>Math.floor(Math.random() * n)\<close>, where \<open>u\<close> is the number \<^verbatim>\<open>Math.random()\<close> returned,
  at least 0 and less than 1. The number is taken as a rational; the rounding of the
  product in floating point is not modelled.
\<close>

definition random_index :: "rat \<Rightarrow> nat \<Rightarrow> nat" where
  "random_index u n = nat \<lfloor>u * of_nat n\<rfloor>"

text \<open>
  Steps 1 to 4 of \<^verbatim>\<open>aiMove\<close>: the successive assignments to \<^verbatim>\<open>chosen\<close>, \<open>None\<close> for
  \<^verbatim>\<open>null\<close>.
\<close>

definition chosen_upto_corner :: "board \<Rightarrow> rat \<Rightarrow> nat option" where
  "chosen_upto_corner bs u =
     (let chosen = findWinningMove bs AI;
          chosen = (if chosen = None then findWinningMove bs PLAYER else chosen);
          chosen = (if chosen = None \<and> bs ! 4 = Empty then Some 4 else chosen);
          corners = filter (\<lambda>i. bs ! i = Empty) [0, 2, 6, 8];
          chosen = (if chosen = None \<and> length corners \<noteq> 0
                    then Some (corners ! random_index u (length corners)) else chosen)
      in chosen)"

text \<open>
  Step 5 added: the cell that \<^verbatim>\<open>aiMove\<close> goes on to mark, or \<open>None\<close> when it takes the
  branch \<^verbatim>\<open>avail.length === 0\<close> and returns without marking one.
\<close>

definition chosen_cell :: "board \<Rightarrow> rat \<Rightarrow> nat option" where
  "chosen_cell bs u =
     (case chosen_upto_corner bs u of
        Some c \<Rightarrow> Some c
      | None \<Rightarrow>
          (let avail = emptyIndices bs
           in if length avail = 0 then None
              else Some (avail ! random_index u (length avail))))"

definition aiMove :: "state \<Rightarrow> rat \<Rightarrow> state \<times> effect list" where
  "aiMove s u =
     (if \<not> gameActive s then (s, [])
      else
        case chosen_cell (boardState s) u of
          None \<Rightarrow>
            (let res = checkWinner (boardState s)
             in if res = Draw then finishGame s Draw else (s, []))
        | Some chosen \<Rightarrow>
            (let s1 = s\<lparr>boardState := (boardState s)[chosen := AI]\<rparr>;
                 result = checkWinner (boardState s1)
             in if result = Winner AI then
                  (let (s2, es) = finishGame s1 (Winner AI) in (s2, RenderMark chosen AI # es))
                else if result = Draw then
                  (let (s2, es) = finishGame s1 Draw in (s2, RenderMark chosen AI # es))
                else (s1, [RenderMark chosen AI, SetStatus YourTurn])))"

text \<open>The function that \<^verbatim>\<open>handlePlayerMove\<close> hands to \<^verbatim>\<open>setTimeout\<close>.\<close>

definition aiTimeout :: "state \<Rightarrow> rat \<Rightarrow> state \<times> effect list" where
  "aiTimeout s u = (let (s', es) = aiMove s u in (s'\<lparr>isProcessing := False\<rparr>, es))"

subsection \<open>resetGame\<close>

definition resetGame :: "state \<Rightarrow> state \<times> effect list" where
  "resetGame s =
     (s\<lparr>boardState := replicate 9 Empty, gameActive := True, isProcessing := False\<rparr>,
      [ClearBoardVisuals, SetStatus YourTurn])"

text \<open>The state after the script has loaded (its last statement is \<^verbatim>\<open>resetGame()\<close>).\<close>

definition initial :: state where
  "initial = \<lparr>boardState = replicate 9 Empty, gameActive = True, isProcessing = False\<rparr>"

subsection \<open>The running page\<close>

text \<open>
  After loading, the script runs only from its event handlers: a click or key press on
  a cell calls \<^verbatim>\<open>handlePlayerMove\<close> with the number read from the cell's
  \<^verbatim>\<open>data-index\<close>, the restart button calls \<^verbatim>\<open>resetGame\<close>, and a timer set by
  \<^verbatim>\<open>handlePlayerMove\<close> runs \<^verbatim>\<open>aiMove\<close> and clears \<^verbatim>\<open>isProcessing\<close>; \<^verbatim>\<open>resetGame\<close>
  cancels no timer. The relation below lets these calls, and a bare call of \<^verbatim>\<open>aiMove\<close>,
  arrive in any order. It does not record which timers are pending, so it holds of every
  state the page can be in, of every state that an alternation of player and agent moves
  leads to, and of others besides.
\<close>

inductive reachable :: "state \<Rightarrow> bool" where
  start: "reachable initial"
| player: "reachable s \<Longrightarrow> handlePlayerMove s index = (s', es) \<Longrightarrow> reachable s'"
| agent: "reachable s \<Longrightarrow> 0 \<le> u \<Longrightarrow> u < 1 \<Longrightarrow> aiMove s u = (s', es) \<Longrightarrow> reachable s'"
| timer: "reachable s \<Longrightarrow> 0 \<le> u \<Longrightarrow> u < 1 \<Longrightarrow> aiTimeout s u = (s', es) \<Longrightarrow> reachable s'"
| restart: "reachable s \<Longrightarrow> resetGame s = (s', es) \<Longrightarrow> reachable s'"

subsection \<open>The timer queue\<close>






subsection \<open>The vocabulary of the specification\<close>

text \<open>
  The specification speaks of a line whose three cells share the same non-Empty mark,
  and of a line with exactly two cells equal to a mark and one Empty cell. Both are
  written here from its words, for the comparison with the loops above.
\<close>

definition line_filled_by :: "board \<Rightarrow> mark \<Rightarrow> nat \<times> nat \<times> nat \<Rightarrow> bool" where
  "line_filled_by bs m l =
     (case l of (a, b, c) \<Rightarrow> m \<noteq> Empty \<and> bs ! a = m \<and> bs ! b = m \<and> bs ! c = m)"

definition line_filled :: "board \<Rightarrow> nat \<times> nat \<times> nat \<Rightarrow> bool" where
  "line_filled bs l = (line_filled_by bs MarkX l \<or> line_filled_by bs MarkO l)"

definition has_line :: "board \<Rightarrow> mark \<Rightarrow> bool" where
  "has_line bs m = (\<exists>l \<in> set winConditions. line_filled_by bs m l)"

text \<open>
  The Empty cell of a line with exactly two cells equal to \<open>m\<close> and one Empty cell;
  \<open>None\<close> for every other line.
\<close>

definition completing_cell :: "board \<Rightarrow> mark \<Rightarrow> nat \<times> nat \<times> nat \<Rightarrow> nat option" where
  "completing_cell bs m l =
     (case l of (a, b, c) \<Rightarrow>
        if m = Empty then None
        else if bs ! a = Empty \<and> bs ! b = m \<and> bs ! c = m then Some a
        else if bs ! a = m \<and> bs ! b = Empty \<and> bs ! c = m then Some b
        else if bs ! a = m \<and> bs ! b = m \<and> bs ! c = Empty then Some c
        else None)"

text \<open>
  A cell that completes a line of \<open>m\<close>, and whether there is one.
\<close>

definition completes :: "board \<Rightarrow> mark \<Rightarrow> nat \<Rightarrow> bool" where
  "completes bs m k = (\<exists>l \<in> set winConditions. completing_cell bs m l = Some k)"

definition can_complete :: "board \<Rightarrow> mark \<Rightarrow> bool" where
  "can_complete bs m = (\<exists>l \<in> set winConditions. completing_cell bs m l \<noteq> None)"

text \<open>
  \<^verbatim>\<open>aiMove\<close> plays cell \<open>k\<close>: the cell is an Empty cell of the board, and the board after
  the call is the board before it with \<^verbatim>\<open>AI\<close> at \<open>k\<close>.
\<close>

definition ai_plays :: "state \<Rightarrow> rat \<Rightarrow> nat \<Rightarrow> bool" where
  "ai_plays s u k =
     (k < length (boardState s) \<and> boardState s ! k = Empty \<and>
      boardState (fst (aiMove s u)) = (boardState s)[k := AI])"

text \<open>
  What every reachable state satisfies: the board has 9 cells, no line is filled while
  the game is active, the two marks do not both have a filled line, and a finished game
  is not processing.
\<close>

definition game_invariant :: "state \<Rightarrow> bool" where
  "game_invariant s =
     (length (boardState s) = 9 \<and>
      (gameActive s \<longrightarrow> (\<forall>l \<in> set winConditions. \<not> line_filled (boardState s) l)) \<and>
      \<not> (has_line (boardState s) PLAYER \<and> has_line (boardState s) AI) \<and>
      (\<not> gameActive s \<longrightarrow> \<not> isProcessing s))"

section \<open>The loops over the winning combinations\<close>

lemma line_filled_iff:
  "line_filled bs (a, b, c) \<longleftrightarrow> bs ! a \<noteq> Empty \<and> bs ! a = bs ! b \<and> bs ! b = bs ! c"
  by (cases "bs ! a") (auto simp: line_filled_def line_filled_by_def)

lemma checkWinner_loop_None:
  "checkWinner_loop ls bs = None \<longleftrightarrow> (\<forall>l \<in> set ls. \<not> line_filled bs l)"
  by (induction ls bs rule: checkWinner_loop.induct) (auto simp: line_filled_iff)

lemma checkWinner_loop_first:
  "i < length ls \<Longrightarrow> line_filled_by bs m (ls ! i) \<Longrightarrow>
   \<forall>j<i. \<not> line_filled bs (ls ! j) \<Longrightarrow> checkWinner_loop ls bs = Some m"
proof (induction ls bs arbitrary: i rule: checkWinner_loop.induct)
  case (1 bs)
  then show ?case by simp
next
  case (2 a b c rest bs)
  show ?case
  proof (cases i)
    case 0
    with 2(3) show ?thesis by (simp add: line_filled_by_def)
  next
    case (Suc k)
    from 2(4) Suc have nf: "\<not> line_filled bs (a, b, c)" by force
    from 2(4) Suc have "\<forall>j<k. \<not> line_filled bs (rest ! j)" by force
    with 2(1)[of k] 2(2,3) Suc nf show ?thesis
      by (auto simp: line_filled_iff)
  qed
qed

lemma checkWinner_loop_Some:
  "checkWinner_loop ls bs = Some m \<Longrightarrow> \<exists>l \<in> set ls. line_filled_by bs m l"
  by (induction ls bs rule: checkWinner_loop.induct)
     (auto simp: line_filled_by_def split: if_splits)

text \<open>One iteration of the loop of \<^verbatim>\<open>findWinningMove\<close>, in the specification's terms.\<close>

lemma find_line_step:
  "(let line = [a, b, c];
        marks = map (\<lambda>i. bs ! i) line;
        countPlayer = length (filter (\<lambda>m. m = player) marks);
        countEmpty = length (filter (\<lambda>m. m = Empty) marks)
    in if countPlayer = 2 \<and> countEmpty = 1
       then find (\<lambda>i. bs ! i = Empty) line
       else r) =
   (case completing_cell bs player (a, b, c) of Some e \<Rightarrow> Some e | None \<Rightarrow> r)"
  by (cases "bs ! a"; cases "bs ! b"; cases "bs ! c"; cases player)
     (simp_all add: completing_cell_def)

lemma findWinningMove_loop_unfold:
  "findWinningMove_loop (l # rest) bs player =
   (case completing_cell bs player l of Some e \<Rightarrow> Some e
    | None \<Rightarrow> findWinningMove_loop rest bs player)"
  by (cases l) (simp only: findWinningMove_loop.simps find_line_step)

lemma findWinningMove_loop_None:
  "findWinningMove_loop ls bs m = None \<longleftrightarrow> (\<forall>l \<in> set ls. completing_cell bs m l = None)"
  by (induction ls) (auto simp: findWinningMove_loop_unfold split: option.splits)

lemma findWinningMove_loop_first:
  "i < length ls \<Longrightarrow> completing_cell bs m (ls ! i) = Some e \<Longrightarrow>
   \<forall>j<i. completing_cell bs m (ls ! j) = None \<Longrightarrow> findWinningMove_loop ls bs m = Some e"
proof (induction ls arbitrary: i)
  case Nil
  then show ?case by simp
next
  case (Cons l ls)
  show ?case
  proof (cases i)
    case 0
    with Cons.prems show ?thesis by (simp add: findWinningMove_loop_unfold)
  next
    case (Suc k)
    from Cons.prems(3) Suc have h0: "completing_cell bs m l = None" by force
    from Cons.prems(3) Suc have "\<forall>j<k. completing_cell bs m (ls ! j) = None" by force
    with Cons.IH[of k] Cons.prems(1,2) Suc h0 show ?thesis
      by (simp add: findWinningMove_loop_unfold)
  qed
qed

lemma findWinningMove_loop_Some:
  "findWinningMove_loop ls bs m = Some e \<Longrightarrow> \<exists>l \<in> set ls. completing_cell bs m l = Some e"
  by (induction ls) (auto simp: findWinningMove_loop_unfold split: option.splits)

section \<open>The choice of the agent\<close>

lemma random_index_less:
  assumes "0 \<le> u" "u < 1" "0 < n"
  shows "random_index u n < n"
proof -
  have "u * of_nat n < of_nat n" using assms by simp
  then have "\<lfloor>u * of_nat n\<rfloor> < int n" by (simp add: floor_less_iff)
  then show ?thesis using assms(3) by (simp add: random_index_def)
qed

lemma winConditions_bound:
  "(a, b, c) \<in> set winConditions \<Longrightarrow> a < 9 \<and> b < 9 \<and> c < 9"
  by (auto simp: winConditions_def)

lemma completing_cell_Some:
  "completing_cell bs m (a, b, c) = Some e \<Longrightarrow> (e = a \<or> e = b \<or> e = c) \<and> bs ! e = Empty"
  by (auto simp: completing_cell_def split: if_splits)

lemma completes_empty:
  "completes bs m k \<Longrightarrow> k < 9 \<and> bs ! k = Empty"
  unfolding completes_def
  using winConditions_bound completing_cell_Some by (metis prod_cases3)

lemma findWinningMove_Some_completes:
  "findWinningMove bs m = Some k \<Longrightarrow> completes bs m k"
  unfolding findWinningMove_def completes_def by (rule findWinningMove_loop_Some)

lemma findWinningMove_None_iff:
  "findWinningMove bs m = None \<longleftrightarrow> \<not> can_complete bs m"
  unfolding findWinningMove_def can_complete_def by (simp add: findWinningMove_loop_None)

lemma corner_pick:
  assumes "0 \<le> u" "u < 1" "filter P [0, 2, 6, 8::nat] \<noteq> []"
  shows "filter P [0, 2, 6, 8] ! random_index u (length (filter P [0, 2, 6, 8])) \<in> {0, 2, 6, 8}
         \<and> P (filter P [0, 2, 6, 8] ! random_index u (length (filter P [0, 2, 6, 8])))"
proof -
  let ?cs = "filter P [0, 2, 6, 8]"
  have "random_index u (length ?cs) < length ?cs"
    using assms by (intro random_index_less) simp_all
  then have "?cs ! random_index u (length ?cs) \<in> set ?cs" by (rule nth_mem)
  then show ?thesis by auto
qed

lemma avail_pick:
  assumes "0 \<le> u" "u < 1" "emptyIndices bs \<noteq> []"
  shows "emptyIndices bs ! random_index u (length (emptyIndices bs)) < length bs
         \<and> bs ! (emptyIndices bs ! random_index u (length (emptyIndices bs))) = Empty"
proof -
  let ?av = "emptyIndices bs"
  have "random_index u (length ?av) < length ?av"
    using assms by (intro random_index_less) simp_all
  then have "?av ! random_index u (length ?av) \<in> set ?av" by (rule nth_mem)
  then show ?thesis by (auto simp: emptyIndices_def)
qed

lemma emptyIndices_Nil_iff: "emptyIndices bs = [] \<longleftrightarrow> Empty \<notin> set bs"
  by (auto simp: emptyIndices_def filter_empty_conv in_set_conv_nth)

lemma aiMove_board:
  "gameActive s \<Longrightarrow> chosen_cell (boardState s) u = Some k \<Longrightarrow>
   boardState (fst (aiMove s u)) = (boardState s)[k := AI]"
  by (simp add: aiMove_def finishGame_def Let_def split: prod.splits)

lemma chosen_cell_win:
  "findWinningMove bs AI = Some k \<Longrightarrow> chosen_cell bs u = Some k"
  by (simp add: chosen_cell_def chosen_upto_corner_def Let_def)

lemma chosen_cell_block:
  "findWinningMove bs AI = None \<Longrightarrow> findWinningMove bs PLAYER = Some k \<Longrightarrow>
   chosen_cell bs u = Some k"
  by (simp add: chosen_cell_def chosen_upto_corner_def Let_def)

lemma chosen_cell_center:
  "findWinningMove bs AI = None \<Longrightarrow> findWinningMove bs PLAYER = None \<Longrightarrow>
   bs ! 4 = Empty \<Longrightarrow> chosen_cell bs u = Some 4"
  by (simp add: chosen_cell_def chosen_upto_corner_def Let_def)

lemma chosen_cell_corner:
  "findWinningMove bs AI = None \<Longrightarrow> findWinningMove bs PLAYER = None \<Longrightarrow>
   bs ! 4 \<noteq> Empty \<Longrightarrow> filter (\<lambda>i. bs ! i = Empty) [0, 2, 6, 8] \<noteq> [] \<Longrightarrow>
   chosen_cell bs u =
     Some (filter (\<lambda>i. bs ! i = Empty) [0, 2, 6, 8]
             ! random_index u (length (filter (\<lambda>i. bs ! i = Empty) [0, 2, 6, 8])))"
  by (simp add: chosen_cell_def chosen_upto_corner_def Let_def)

lemma chosen_cell_rest:
  "findWinningMove bs AI = None \<Longrightarrow> findWinningMove bs PLAYER = None \<Longrightarrow>
   bs ! 4 \<noteq> Empty \<Longrightarrow> filter (\<lambda>i. bs ! i = Empty) [0, 2, 6, 8] = [] \<Longrightarrow>
   chosen_cell bs u =
     (if emptyIndices bs = [] then None
      else Some (emptyIndices bs ! random_index u (length (emptyIndices bs))))"
  by (simp add: chosen_cell_def chosen_upto_corner_def Let_def)

lemma full_board_no_completing:
  assumes "length bs = 9" "Empty \<notin> set bs" "l \<in> set winConditions"
  shows "completing_cell bs m l = None"
proof -
  obtain a b c where l: "l = (a, b, c)" by (cases l)
  with assms(3) winConditions_bound have "a < 9 \<and> b < 9 \<and> c < 9" by blast
  with assms(1,2) have "bs ! a \<noteq> Empty \<and> bs ! b \<noteq> Empty \<and> bs ! c \<noteq> Empty"
    by (metis nth_mem)
  then show ?thesis by (simp add: l completing_cell_def)
qed

lemma full_board_chosen_cell:
  assumes "length bs = 9" "Empty \<notin> set bs"
  shows "chosen_cell bs u = None"
proof -
  have fw: "findWinningMove bs m = None" for m
    using full_board_no_completing[OF assms]
    by (simp add: findWinningMove_def findWinningMove_loop_None)
  have "\<forall>i<9. bs ! i \<noteq> Empty" using assms by (metis nth_mem)
  then have "bs ! 4 \<noteq> Empty" "filter (\<lambda>i. bs ! i = Empty) [0, 2, 6, 8] = []"
    by simp_all
  moreover have "emptyIndices bs = []" using assms(2) by (simp add: emptyIndices_Nil_iff)
  ultimately show ?thesis using chosen_cell_rest[of bs u] fw by simp
qed

section \<open>One mark on a board without a filled line\<close>

text \<open>
  A mark written on a board that has no filled line can only fill lines of that mark:
  a line filled by another mark would have been filled before.
\<close>

lemma new_line_through_mark:
  assumes "\<not> line_filled bs l" "line_filled_by (bs[k := m]) m' l"
  shows "m' = m"
proof -
  obtain a b c where l: "l = (a, b, c)" by (cases l)
  show ?thesis
  proof (rule ccontr)
    assume ne: "m' \<noteq> m"
    from assms(2) l have f: "m' \<noteq> Empty" "bs[k := m] ! a = m'" "bs[k := m] ! b = m'"
      "bs[k := m] ! c = m'" by (simp_all add: line_filled_by_def)
    have "bs ! i = m'" if "bs[k := m] ! i = m'" for i
      using that ne by (cases "k < length bs") (auto simp: nth_list_update list_update_beyond)
    with f have "line_filled_by bs m' l" by (simp add: l line_filled_by_def)
    with assms(1) show False by (cases m') (auto simp: line_filled_def line_filled_by_def l)
  qed
qed

lemma mark_on_unfilled_board:
  assumes "\<forall>l \<in> set winConditions. \<not> line_filled bs l"
  shows "checkWinner (bs[k := m]) = Winner m \<or>
         ((\<forall>l \<in> set winConditions. \<not> line_filled (bs[k := m]) l) \<and>
          (checkWinner (bs[k := m]) = Draw \<or> checkWinner (bs[k := m]) = Continue))"
proof (cases "checkWinner_loop winConditions (bs[k := m])")
  case None
  then have "\<forall>l \<in> set winConditions. \<not> line_filled (bs[k := m]) l"
    by (simp only: checkWinner_loop_None)
  moreover from None have "checkWinner (bs[k := m]) = Draw \<or> checkWinner (bs[k := m]) = Continue"
    by (simp add: checkWinner_def)
  ultimately show ?thesis by blast
next
  case (Some m')
  then obtain l where "l \<in> set winConditions" "line_filled_by (bs[k := m]) m' l"
    using checkWinner_loop_Some by blast
  with assms new_line_through_mark have "m' = m" by blast
  with Some show ?thesis by (simp add: checkWinner_def)
qed

lemma mark_on_unfilled_board_lines:
  assumes "\<forall>l \<in> set winConditions. \<not> line_filled bs l" "m' \<noteq> m"
  shows "\<not> has_line (bs[k := m]) m'"
  using assms new_line_through_mark unfolding has_line_def by blast

lemma no_line_filled_has_line:
  "\<forall>l \<in> set winConditions. \<not> line_filled bs l \<Longrightarrow> \<not> has_line bs PLAYER \<and> \<not> has_line bs AI"
  by (auto simp: has_line_def line_filled_def)

section \<open>The invariant of the game\<close>

lemma invariant_handlePlayerMove:
  assumes "game_invariant s"
  shows "game_invariant (fst (handlePlayerMove s index))"
proof (cases "\<not> gameActive s \<or> isProcessing s \<or> cell_at (boardState s) index \<noteq> Some Empty")
  case True
  then have "handlePlayerMove s index = (s, [])" by (auto simp: handlePlayerMove_def)
  with assms show ?thesis by simp
next
  case False
  let ?bs = "(boardState s)[nat index := PLAYER]"
  from False assms have nf: "\<forall>l \<in> set winConditions. \<not> line_filled (boardState s) l"
    by (simp add: game_invariant_def)
  from assms have len: "length ?bs = 9" by (simp add: game_invariant_def)
  note noAI = mark_on_unfilled_board_lines[OF nf, of AI PLAYER "nat index"]
  from mark_on_unfilled_board[OF nf, of "nat index" PLAYER]
  show ?thesis
  proof
    assume "checkWinner ?bs = Winner PLAYER"
    with False len noAI show ?thesis
      by (simp add: handlePlayerMove_def finishGame_def game_invariant_def Let_def)
  next
    assume a: "(\<forall>l \<in> set winConditions. \<not> line_filled ?bs l) \<and>
               (checkWinner ?bs = Draw \<or> checkWinner ?bs = Continue)"
    with no_line_filled_has_line[of ?bs] False len show ?thesis
      by (auto simp: handlePlayerMove_def finishGame_def game_invariant_def Let_def)
  qed
qed

lemma invariant_aiMove:
  assumes "game_invariant s"
  shows "game_invariant (fst (aiMove s u))"
proof (cases "gameActive s")
  case False
  with assms show ?thesis by (simp add: aiMove_def)
next
  case True
  with assms have nf: "\<forall>l \<in> set winConditions. \<not> line_filled (boardState s) l"
    by (simp add: game_invariant_def)
  show ?thesis
  proof (cases "chosen_cell (boardState s) u")
    case None
    with True assms no_line_filled_has_line[OF nf] show ?thesis
      by (auto simp: aiMove_def finishGame_def game_invariant_def Let_def)
  next
    case (Some k)
    let ?bs = "(boardState s)[k := AI]"
    from assms have len: "length ?bs = 9" by (simp add: game_invariant_def)
    note noX = mark_on_unfilled_board_lines[OF nf, of PLAYER AI k]
    from mark_on_unfilled_board[OF nf, of k AI]
    show ?thesis
    proof
      assume "checkWinner ?bs = Winner AI"
      with True Some len noX show ?thesis
        by (simp add: aiMove_def finishGame_def game_invariant_def Let_def)
    next
      assume a: "(\<forall>l \<in> set winConditions. \<not> line_filled ?bs l) \<and>
                 (checkWinner ?bs = Draw \<or> checkWinner ?bs = Continue)"
      with no_line_filled_has_line[of ?bs] True Some len assms show ?thesis
        by (auto simp: aiMove_def finishGame_def game_invariant_def Let_def)
    qed
  qed
qed

lemma invariant_aiTimeout:
  assumes "game_invariant s"
  shows "game_invariant (fst (aiTimeout s u))"
  using invariant_aiMove[OF assms, of u]
  by (cases "aiMove s u") (simp add: aiTimeout_def game_invariant_def)

lemma invariant_resetGame: "game_invariant (fst (resetGame s))"
  by (simp add: resetGame_def game_invariant_def has_line_def line_filled_def
        line_filled_by_def winConditions_def)

lemma invariant_initial: "game_invariant initial"
  by (simp add: initial_def game_invariant_def has_line_def line_filled_def
        line_filled_by_def winConditions_def)

lemma reachable_invariant: "reachable s \<Longrightarrow> game_invariant s"
proof (induction rule: reachable.induct)
  case start
  show ?case by (rule invariant_initial)
next
  case (player s index s' es)
  with invariant_handlePlayerMove[of s index] show ?case by simp
next
  case (agent s u s' es)
  with invariant_aiMove[of s u] show ?case by simp
next
  case (timer s u s' es)
  with invariant_aiTimeout[of s u] show ?case by simp
next
  case (restart s s' es)
  with invariant_resetGame[of s] show ?case by simp
qed

section \<open>The outcome of a board\<close>

text \<open>
  Claim C3. For every board of 9 marks, \<^verbatim>\<open>checkWinner\<close> returns the mark that fills the
  first, in the order of \<^verbatim>\<open>winConditions\<close>, of the lines whose three cells share the
  same non-Empty mark (\<open>Winner PLAYER\<close> is the status PlayerWon, \<open>Winner AI\<close> is
  AgentWon); when no line is filled it returns \<^verbatim>\<open>'draw'\<close> if no cell is Empty and
  \<^verbatim>\<open>null\<close> (the game goes on) otherwise.
\<close>

theorem checkWinner_first_filled_line:
  "length bs = 9 \<Longrightarrow>
   (i < length winConditions \<and> line_filled_by bs m (winConditions ! i) \<and>
    (\<forall>j<i. \<not> line_filled bs (winConditions ! j)) \<longrightarrow> checkWinner bs = Winner m) \<and>
   ((\<forall>l \<in> set winConditions. \<not> line_filled bs l) \<and> Empty \<notin> set bs
      \<longrightarrow> checkWinner bs = Draw) \<and>
   ((\<forall>l \<in> set winConditions. \<not> line_filled bs l) \<and> Empty \<in> set bs
      \<longrightarrow> checkWinner bs = Continue)"
  using checkWinner_loop_first[of i winConditions bs m] checkWinner_loop_None[of winConditions bs]
  by (auto simp: checkWinner_def)

theorem checkWinner_first_filled_line_witness:
  "checkWinner [MarkX, MarkO, MarkO, MarkX, MarkO, Empty, MarkX, Empty, Empty] = Winner MarkX \<and>
   checkWinner [MarkX, MarkO, MarkX, MarkX, MarkO, MarkO, MarkO, MarkX, MarkX] = Draw \<and>
   checkWinner (replicate 9 Empty) = Continue"
proof -
  have "checkWinner [MarkX, MarkO, MarkO, MarkX, MarkO, Empty, MarkX, Empty, Empty] = Winner MarkX"
    using checkWinner_first_filled_line
      [of "[MarkX, MarkO, MarkO, MarkX, MarkO, Empty, MarkX, Empty, Empty]" 3 MarkX]
    by (simp add: winConditions_def line_filled_def line_filled_by_def
          eval_nat_numeral All_less_Suc)
  moreover
  have "checkWinner [MarkX, MarkO, MarkX, MarkX, MarkO, MarkO, MarkO, MarkX, MarkX] = Draw"
    using checkWinner_first_filled_line
      [of "[MarkX, MarkO, MarkX, MarkX, MarkO, MarkO, MarkO, MarkX, MarkX]" 0 MarkX]
    by (simp add: winConditions_def line_filled_def line_filled_by_def)
  moreover
  have "checkWinner (replicate 9 Empty) = Continue"
    using checkWinner_first_filled_line [of "replicate 9 Empty" 0 MarkX]
    by (simp add: winConditions_def line_filled_def line_filled_by_def)
  ultimately show ?thesis by blast
qed

section \<open>The cell that completes a line\<close>

text \<open>
  Claim C4. For every board and every mark \<open>m\<close>, \<^verbatim>\<open>findWinningMove\<close> returns the Empty
  cell of the first, in the order of \<^verbatim>\<open>winConditions\<close>, of the lines with exactly two
  cells equal to \<open>m\<close> and one Empty cell, and it returns \<^verbatim>\<open>null\<close> if and only if there is
  no such line.
\<close>

theorem findWinningMove_first_open_line:
  "length bs = 9 \<Longrightarrow>
   (i < length winConditions \<and> completing_cell bs m (winConditions ! i) = Some e \<and>
    (\<forall>j<i. completing_cell bs m (winConditions ! j) = None)
      \<longrightarrow> findWinningMove bs m = Some e) \<and>
   (findWinningMove bs m = None \<longleftrightarrow>
      (\<forall>l \<in> set winConditions. completing_cell bs m l = None))"
  using findWinningMove_loop_first[of i winConditions bs m e]
        findWinningMove_loop_None[of winConditions bs m]
  by (auto simp: findWinningMove_def)

theorem findWinningMove_first_open_line_witness:
  "findWinningMove [MarkX, MarkX, Empty, Empty, MarkO, Empty, Empty, Empty, Empty] MarkX = Some 2 \<and>
   findWinningMove [MarkX, MarkX, Empty, Empty, MarkO, Empty, Empty, Empty, Empty] MarkO = None"
proof -
  have "findWinningMove [MarkX, MarkX, Empty, Empty, MarkO, Empty, Empty, Empty, Empty] MarkX = Some 2"
    using findWinningMove_first_open_line
      [of "[MarkX, MarkX, Empty, Empty, MarkO, Empty, Empty, Empty, Empty]" 0 MarkX 2]
    by (simp add: winConditions_def completing_cell_def)
  moreover
  have "findWinningMove [MarkX, MarkX, Empty, Empty, MarkO, Empty, Empty, Empty, Empty] MarkO = None"
    using findWinningMove_first_open_line
      [of "[MarkX, MarkX, Empty, Empty, MarkO, Empty, Empty, Empty, Empty]" 0 MarkO 0]
    by (simp add: winConditions_def completing_cell_def)
  ultimately show ?thesis by blast
qed

section \<open>A game played to its end\<close>

text \<open>
  The player takes cells 0, 1 and 3; the agent answers with the centre, blocks at 2 and
  wins on the line 2, 4, 6.
\<close>

lemma reachable_agent_win:
  "reachable \<lparr>boardState = [MarkX, MarkX, MarkO, MarkX, MarkO, Empty, MarkO, Empty, Empty],
              gameActive = False, isProcessing = False\<rparr>"
proof -
  have h: "(0::rat) \<le> 0" "(0::rat) < 1" by simp_all
  have "handlePlayerMove initial 0 =
          (\<lparr>boardState = [MarkX, Empty, Empty, Empty, Empty, Empty, Empty, Empty, Empty],
            gameActive = True, isProcessing = True\<rparr>,
           [RenderMark 0 PLAYER, SetStatus AIsTurn, SetTimeout])"
    by code_simp
  from reachable.player[OF reachable.start this]
  have "reachable \<lparr>boardState = [MarkX, Empty, Empty, Empty, Empty, Empty, Empty, Empty, Empty],
                   gameActive = True, isProcessing = True\<rparr>" .
  moreover
  have "aiTimeout \<lparr>boardState = [MarkX, Empty, Empty, Empty, Empty, Empty, Empty, Empty, Empty],
                   gameActive = True, isProcessing = True\<rparr> 0 =
          (\<lparr>boardState = [MarkX, Empty, Empty, Empty, MarkO, Empty, Empty, Empty, Empty],
            gameActive = True, isProcessing = False\<rparr>,
           [RenderMark 4 AI, SetStatus YourTurn])"
    by code_simp
  ultimately
  have "reachable \<lparr>boardState = [MarkX, Empty, Empty, Empty, MarkO, Empty, Empty, Empty, Empty],
                   gameActive = True, isProcessing = False\<rparr>"
    by (rule reachable.timer[OF _ h])
  moreover
  have "handlePlayerMove
          \<lparr>boardState = [MarkX, Empty, Empty, Empty, MarkO, Empty, Empty, Empty, Empty],
            gameActive = True, isProcessing = False\<rparr> 1 =
          (\<lparr>boardState = [MarkX, MarkX, Empty, Empty, MarkO, Empty, Empty, Empty, Empty],
            gameActive = True, isProcessing = True\<rparr>,
           [RenderMark 1 PLAYER, SetStatus AIsTurn, SetTimeout])"
    by code_simp
  ultimately
  have "reachable \<lparr>boardState = [MarkX, MarkX, Empty, Empty, MarkO, Empty, Empty, Empty, Empty],
                   gameActive = True, isProcessing = True\<rparr>"
    by (rule reachable.player)
  moreover
  have "aiTimeout \<lparr>boardState = [MarkX, MarkX, Empty, Empty, MarkO, Empty, Empty, Empty, Empty],
                   gameActive = True, isProcessing = True\<rparr> 0 =
          (\<lparr>boardState = [MarkX, MarkX, MarkO, Empty, MarkO, Empty, Empty, Empty, Empty],
            gameActive = True, isProcessing = False\<rparr>,
           [RenderMark 2 AI, SetStatus YourTurn])"
    by code_simp
  ultimately
  have "reachable \<lparr>boardState = [MarkX, MarkX, MarkO, Empty, MarkO, Empty, Empty, Empty, Empty],
                   gameActive = True, isProcessing = False\<rparr>"
    by (rule reachable.timer[OF _ h])
  moreover
  have "handlePlayerMove
          \<lparr>boardState = [MarkX, MarkX, MarkO, Empty, MarkO, Empty, Empty, Empty, Empty],
            gameActive = True, isProcessing = False\<rparr> 3 =
          (\<lparr>boardState = [MarkX, MarkX, MarkO, MarkX, MarkO, Empty, Empty, Empty, Empty],
            gameActive = True, isProcessing = True\<rparr>,
           [RenderMark 3 PLAYER, SetStatus AIsTurn, SetTimeout])"
    by code_simp
  ultimately
  have "reachable \<lparr>boardState = [MarkX, MarkX, MarkO, MarkX, MarkO, Empty, Empty, Empty, Empty],
                   gameActive = True, isProcessing = True\<rparr>"
    by (rule reachable.player)
  moreover
  have "aiTimeout \<lparr>boardState = [MarkX, MarkX, MarkO, MarkX, MarkO, Empty, Empty, Empty, Empty],
                   gameActive = True, isProcessing = True\<rparr> 0 =
          (\<lparr>boardState = [MarkX, MarkX, MarkO, MarkX, MarkO, Empty, MarkO, Empty, Empty],
            gameActive = False, isProcessing = False\<rparr>,
           [RenderMark 6 AI, SetStatus YouLose, HighlightWin 2 4 6])"
    by code_simp
  ultimately show ?thesis
    by (rule reachable.timer[OF _ h])
qed

section \<open>The agent's move\<close>

text \<open>
  Claim C2. On every board of an active game, \<^verbatim>\<open>aiMove\<close> plays by a cascade in which the
  first rule that applies decides: a cell that completes a line of the agent if there is
  one; else a cell that completes a line of the player if there is one; else cell 4 if
  it is Empty; else one of the Empty corners among 0, 2, 6 and 8 if there is one; else
  some Empty cell, which is then one of the edge cells 1, 3, 5 and 7. So without a win
  or a block the centre is taken, and with the centre occupied a corner is played
  whenever one is Empty.
\<close>

theorem aiMove_cascade:
  assumes "gameActive s" and "length (boardState s) = 9" and "0 \<le> u" and "u < 1"
  shows
   "(can_complete (boardState s) AI \<longrightarrow>
       (\<exists>k<9. completes (boardState s) AI k \<and> ai_plays s u k)) \<and>
    (\<not> can_complete (boardState s) AI \<and> can_complete (boardState s) PLAYER \<longrightarrow>
       (\<exists>k<9. completes (boardState s) PLAYER k \<and> ai_plays s u k)) \<and>
    (\<not> can_complete (boardState s) AI \<and> \<not> can_complete (boardState s) PLAYER \<and>
     boardState s ! 4 = Empty \<longrightarrow> ai_plays s u 4) \<and>
    (\<not> can_complete (boardState s) AI \<and> \<not> can_complete (boardState s) PLAYER \<and>
     boardState s ! 4 \<noteq> Empty \<and> (\<exists>c \<in> {0, 2, 6, 8}. boardState s ! c = Empty) \<longrightarrow>
       (\<exists>c \<in> {0, 2, 6, 8}. ai_plays s u c)) \<and>
    (\<not> can_complete (boardState s) AI \<and> \<not> can_complete (boardState s) PLAYER \<and>
     boardState s ! 4 \<noteq> Empty \<and> (\<forall>c \<in> {0, 2, 6, 8}. boardState s ! c \<noteq> Empty) \<and>
     Empty \<in> set (boardState s) \<longrightarrow>
       (\<exists>e \<in> {1, 3, 5, 7}. ai_plays s u e))"
proof -
  let ?bs = "boardState s"
  let ?cs = "filter (\<lambda>i. ?bs ! i = Empty) [0, 2, 6, 8]"
  note plays = aiMove_board[OF assms(1)]
  have win: "\<exists>k<9. completes ?bs AI k \<and> ai_plays s u k" if "can_complete ?bs AI"
  proof -
    from that obtain k where k: "findWinningMove ?bs AI = Some k"
      using findWinningMove_None_iff[of ?bs AI] by auto
    then have c: "completes ?bs AI k" by (rule findWinningMove_Some_completes)
    with completes_empty[OF c] plays[OF chosen_cell_win[OF k]] assms(2)
    show ?thesis by (auto simp: ai_plays_def)
  qed
  have block: "\<exists>k<9. completes ?bs PLAYER k \<and> ai_plays s u k"
    if "\<not> can_complete ?bs AI" "can_complete ?bs PLAYER"
  proof -
    from that have n: "findWinningMove ?bs AI = None"
      by (simp add: findWinningMove_None_iff)
    from that obtain k where k: "findWinningMove ?bs PLAYER = Some k"
      using findWinningMove_None_iff[of ?bs PLAYER] by auto
    then have c: "completes ?bs PLAYER k" by (rule findWinningMove_Some_completes)
    with completes_empty[OF c] plays[OF chosen_cell_block[OF n k]] assms(2)
    show ?thesis by (auto simp: ai_plays_def)
  qed
  have center: "ai_plays s u 4"
    if "\<not> can_complete ?bs AI" "\<not> can_complete ?bs PLAYER" "?bs ! 4 = Empty"
    using that plays[OF chosen_cell_center[of ?bs u]] assms(2)
    by (simp add: findWinningMove_None_iff ai_plays_def)
  have corner: "\<exists>c \<in> {0, 2, 6, 8}. ai_plays s u c"
    if "\<not> can_complete ?bs AI" "\<not> can_complete ?bs PLAYER" "?bs ! 4 \<noteq> Empty"
       "\<exists>c \<in> {0, 2, 6, 8}. ?bs ! c = Empty"
  proof -
    from that(4) have ne: "?cs \<noteq> []" by (auto simp: filter_empty_conv)
    let ?c = "?cs ! random_index u (length ?cs)"
    from corner_pick[OF assms(3,4) ne]
    have c: "?c \<in> {0, 2, 6, 8}" "?bs ! ?c = Empty" by blast+
    have "chosen_cell ?bs u = Some ?c"
      using that(1-3) ne by (intro chosen_cell_corner) (simp_all add: findWinningMove_None_iff)
    from plays[OF this] c assms(2) have "ai_plays s u ?c"
      by (auto simp: ai_plays_def)
    with c(1) show ?thesis by blast
  qed
  have rest: "\<exists>e \<in> {1, 3, 5, 7}. ai_plays s u e"
    if "\<not> can_complete ?bs AI" "\<not> can_complete ?bs PLAYER" "?bs ! 4 \<noteq> Empty"
       "\<forall>c \<in> {0, 2, 6, 8}. ?bs ! c \<noteq> Empty" "Empty \<in> set ?bs"
  proof -
    from that(4) have nil: "?cs = []" by (auto simp: filter_empty_conv)
    from that(5) have ne: "emptyIndices ?bs \<noteq> []" by (simp add: emptyIndices_Nil_iff)
    let ?e = "emptyIndices ?bs ! random_index u (length (emptyIndices ?bs))"
    from avail_pick[OF assms(3,4) ne]
    have e: "?e < length ?bs" "?bs ! ?e = Empty" by blast+
    have "chosen_cell ?bs u = Some ?e"
      using that(1-3) nil ne chosen_cell_rest[of ?bs u]
      by (simp add: findWinningMove_None_iff)
    from plays[OF this] e have p: "ai_plays s u ?e"
      by (auto simp: ai_plays_def)
    from e assms(2) have "?e < 9" by simp
    then have "?e \<in> {0, 1, 2, 3, 4, 5, 6, 7, 8}" by auto
    with e(2) that(3,4) have "?e \<in> {1, 3, 5, 7}" by auto
    with p show ?thesis by blast
  qed
  from win block center corner rest show ?thesis by blast
qed

theorem aiMove_cascade_witness:
  "(\<exists>k<9. completes [MarkO, MarkO, Empty, MarkX, MarkX, Empty, Empty, Empty, Empty] AI k \<and>
      ai_plays \<lparr>boardState = [MarkO, MarkO, Empty, MarkX, MarkX, Empty, Empty, Empty, Empty],
                gameActive = True, isProcessing = True\<rparr> 0 k) \<and>
   (\<exists>k<9. completes [MarkX, MarkX, Empty, Empty, MarkO, Empty, Empty, Empty, Empty] PLAYER k \<and>
      ai_plays \<lparr>boardState = [MarkX, MarkX, Empty, Empty, MarkO, Empty, Empty, Empty, Empty],
                gameActive = True, isProcessing = True\<rparr> 0 k) \<and>
   ai_plays \<lparr>boardState = [MarkX, Empty, Empty, Empty, Empty, Empty, Empty, Empty, Empty],
             gameActive = True, isProcessing = True\<rparr> 0 4 \<and>
   (\<exists>c \<in> {0, 2, 6, 8}.
      ai_plays \<lparr>boardState = [Empty, Empty, Empty, Empty, MarkX, Empty, Empty, Empty, Empty],
                gameActive = True, isProcessing = True\<rparr> (1 / 2) c) \<and>
   (\<exists>e \<in> {1, 3, 5, 7}.
      ai_plays \<lparr>boardState = [MarkX, MarkO, MarkX, Empty, MarkX, Empty, MarkO, MarkX, MarkO],
                gameActive = True, isProcessing = True\<rparr> (1 / 2) e)"
proof -
  have "\<exists>k<9. completes [MarkO, MarkO, Empty, MarkX, MarkX, Empty, Empty, Empty, Empty] AI k \<and>
      ai_plays \<lparr>boardState = [MarkO, MarkO, Empty, MarkX, MarkX, Empty, Empty, Empty, Empty],
                gameActive = True, isProcessing = True\<rparr> 0 k"
    using aiMove_cascade
      [of "\<lparr>boardState = [MarkO, MarkO, Empty, MarkX, MarkX, Empty, Empty, Empty, Empty],
            gameActive = True, isProcessing = True\<rparr>" 0]
    by (simp add: can_complete_def completing_cell_def winConditions_def)
  moreover
  have "\<exists>k<9. completes [MarkX, MarkX, Empty, Empty, MarkO, Empty, Empty, Empty, Empty] PLAYER k \<and>
      ai_plays \<lparr>boardState = [MarkX, MarkX, Empty, Empty, MarkO, Empty, Empty, Empty, Empty],
                gameActive = True, isProcessing = True\<rparr> 0 k"
    using aiMove_cascade
      [of "\<lparr>boardState = [MarkX, MarkX, Empty, Empty, MarkO, Empty, Empty, Empty, Empty],
            gameActive = True, isProcessing = True\<rparr>" 0]
    by (simp add: can_complete_def completing_cell_def winConditions_def)
  moreover
  have "ai_plays \<lparr>boardState = [MarkX, Empty, Empty, Empty, Empty, Empty, Empty, Empty, Empty],
             gameActive = True, isProcessing = True\<rparr> 0 4"
    using aiMove_cascade
      [of "\<lparr>boardState = [MarkX, Empty, Empty, Empty, Empty, Empty, Empty, Empty, Empty],
            gameActive = True, isProcessing = True\<rparr>" 0]
    by (simp add: can_complete_def completing_cell_def winConditions_def)
  moreover
  have "\<exists>c \<in> {0, 2, 6, 8}.
      ai_plays \<lparr>boardState = [Empty, Empty, Empty, Empty, MarkX, Empty, Empty, Empty, Empty],
                gameActive = True, isProcessing = True\<rparr> (1 / 2) c"
    using aiMove_cascade
      [of "\<lparr>boardState = [Empty, Empty, Empty, Empty, MarkX, Empty, Empty, Empty, Empty],
            gameActive = True, isProcessing = True\<rparr>" "1 / 2"]
    by (simp add: can_complete_def completing_cell_def winConditions_def)
  moreover
  have "\<exists>e \<in> {1, 3, 5, 7}.
      ai_plays \<lparr>boardState = [MarkX, MarkO, MarkX, Empty, MarkX, Empty, MarkO, MarkX, MarkO],
                gameActive = True, isProcessing = True\<rparr> (1 / 2) e"
    using aiMove_cascade
      [of "\<lparr>boardState = [MarkX, MarkO, MarkX, Empty, MarkX, Empty, MarkO, MarkX, MarkO],
            gameActive = True, isProcessing = True\<rparr>" "1 / 2"]
    by (simp add: can_complete_def completing_cell_def winConditions_def)
  ultimately show ?thesis by blast
qed

text \<open>
  Claim C1, as the specification states it, fails. On a full board without a filled
  line and with the game active, \<^verbatim>\<open>aiMove\<close> raises nothing: it reaches the branch
  \<^verbatim>\<open>avail.length === 0\<close>, finds that \<^verbatim>\<open>checkWinner()\<close> is \<^verbatim>\<open>'draw'\<close> and calls
  \<^verbatim>\<open>finishGame('draw')\<close>.
\<close>

theorem aiMove_full_board_resolves_draw:
  "aiMove \<lparr>boardState = [MarkX, MarkO, MarkX, MarkX, MarkO, MarkO, MarkO, MarkX, MarkX],
           gameActive = True, isProcessing = True\<rparr> (1 / 2) =
   (\<lparr>boardState = [MarkX, MarkO, MarkX, MarkX, MarkO, MarkO, MarkO, MarkX, MarkX],
     gameActive = False, isProcessing = False\<rparr>, [SetStatus ItsADraw])"
  by code_simp

text \<open>
  Claim C1, amended. When \<^verbatim>\<open>aiMove\<close> is called on a board of 9 cells none of which is
  Empty, it raises no error and marks no cell: if the game is active and
  \<^verbatim>\<open>checkWinner()\<close> is \<^verbatim>\<open>'draw'\<close> it ends the game as a draw (\<^verbatim>\<open>gameActive\<close> and
  \<^verbatim>\<open>isProcessing\<close> become false, the status reads draw), and otherwise it returns with
  the state as it was and nothing shown.
\<close>

theorem aiMove_full_board:
  assumes "length (boardState s) = 9" and "Empty \<notin> set (boardState s)"
  shows "aiMove s u =
           (if gameActive s \<and> checkWinner (boardState s) = Draw
            then (s\<lparr>gameActive := False, isProcessing := False\<rparr>, [SetStatus ItsADraw])
            else (s, []))"
  using full_board_chosen_cell[OF assms]
  by (simp add: aiMove_def finishGame_def)

theorem aiMove_full_board_witness:
  "aiMove \<lparr>boardState = [MarkX, MarkO, MarkX, MarkX, MarkO, MarkO, MarkO, MarkX, MarkX],
           gameActive = True, isProcessing = True\<rparr> 0 =
     (\<lparr>boardState = [MarkX, MarkO, MarkX, MarkX, MarkO, MarkO, MarkO, MarkX, MarkX],
       gameActive = False, isProcessing = False\<rparr>, [SetStatus ItsADraw]) \<and>
   aiMove \<lparr>boardState = [MarkX, MarkX, MarkX, MarkO, MarkO, MarkX, MarkO, MarkX, MarkO],
           gameActive = True, isProcessing = True\<rparr> 0 =
     (\<lparr>boardState = [MarkX, MarkX, MarkX, MarkO, MarkO, MarkX, MarkO, MarkX, MarkO],
       gameActive = True, isProcessing = True\<rparr>, [])"
  using aiMove_full_board
    [of "\<lparr>boardState = [MarkX, MarkO, MarkX, MarkX, MarkO, MarkO, MarkO, MarkX, MarkX],
          gameActive = True, isProcessing = True\<rparr>" 0]
    aiMove_full_board
    [of "\<lparr>boardState = [MarkX, MarkX, MarkX, MarkO, MarkO, MarkX, MarkO, MarkX, MarkO],
          gameActive = True, isProcessing = True\<rparr>" 0]
  by (simp add: checkWinner_def winConditions_def)

text \<open>
  Claim C10. When \<^verbatim>\<open>aiMove\<close> is called while the game is over (\<^verbatim>\<open>gameActive\<close> false), it
  returns at once: the board and the two flags are as before, no cell is marked and
  nothing is shown. In a reachable state the same holds of the timer's function, which
  also clears \<^verbatim>\<open>isProcessing\<close>, since a finished game is never processing.
\<close>

theorem aiMove_terminal_noop:
  "\<not> gameActive s \<Longrightarrow> aiMove s u = (s, []) \<and> (reachable s \<longrightarrow> aiTimeout s u = (s, []))"
proof -
  assume t: "\<not> gameActive s"
  then have a: "aiMove s u = (s, [])" by (simp add: aiMove_def)
  have "aiTimeout s u = (s, [])" if "reachable s"
  proof -
    from reachable_invariant[OF that] t have "\<not> isProcessing s"
      by (simp add: game_invariant_def)
    with a show ?thesis by (simp add: aiTimeout_def)
  qed
  with a show ?thesis by simp
qed

theorem aiMove_terminal_noop_witness:
  "aiMove \<lparr>boardState = [MarkX, MarkX, MarkO, MarkX, MarkO, Empty, MarkO, Empty, Empty],
           gameActive = False, isProcessing = False\<rparr> (1 / 2) =
     (\<lparr>boardState = [MarkX, MarkX, MarkO, MarkX, MarkO, Empty, MarkO, Empty, Empty],
       gameActive = False, isProcessing = False\<rparr>, []) \<and>
   aiTimeout \<lparr>boardState = [MarkX, MarkX, MarkO, MarkX, MarkO, Empty, MarkO, Empty, Empty],
           gameActive = False, isProcessing = False\<rparr> (1 / 2) =
     (\<lparr>boardState = [MarkX, MarkX, MarkO, MarkX, MarkO, Empty, MarkO, Empty, Empty],
       gameActive = False, isProcessing = False\<rparr>, [])"
  using aiMove_terminal_noop
    [of "\<lparr>boardState = [MarkX, MarkX, MarkO, MarkX, MarkO, Empty, MarkO, Empty, Empty],
          gameActive = False, isProcessing = False\<rparr>" "1 / 2"]
    reachable_agent_win
  by simp

section \<open>The player's move\<close>

text \<open>
  Claim C5, as the specification states it, fails. \<^verbatim>\<open>handlePlayerMove(9)\<close> on the fresh
  board raises nothing: \<^verbatim>\<open>boardState[9]\<close> is \<^verbatim>\<open>undefined\<close>, which is not \<^verbatim>\<open>''\<close>, so the
  guard for an occupied cell returns and the call is ignored.
\<close>

theorem handlePlayerMove_index_9_ignored:
  "handlePlayerMove initial 9 = (initial, [])"
  by (simp add: handlePlayerMove_def cell_at_def initial_def)

text \<open>
  Claim C5, amended. For every integer index outside 0..8, \<^verbatim>\<open>handlePlayerMove\<close> raises no
  error and does nothing: the board and the two flags are as before and nothing is shown.
\<close>

theorem handlePlayerMove_out_of_range:
  "length (boardState s) = 9 \<Longrightarrow> index < 0 \<or> 8 < index \<Longrightarrow> handlePlayerMove s index = (s, [])"
  by (auto simp: handlePlayerMove_def cell_at_def)

theorem handlePlayerMove_out_of_range_witness:
  "handlePlayerMove initial (- 1) = (initial, []) \<and> handlePlayerMove initial 12 = (initial, [])"
  using handlePlayerMove_out_of_range [of initial "- 1"]
        handlePlayerMove_out_of_range [of initial 12]
  by (simp add: initial_def)

text \<open>
  Claim C6. When the game is over, or \<^verbatim>\<open>isProcessing\<close> is set, or the cell at the index
  is not Empty, \<^verbatim>\<open>handlePlayerMove\<close> does nothing: the board, \<^verbatim>\<open>gameActive\<close> and
  \<^verbatim>\<open>isProcessing\<close> are as before, and nothing is shown or scheduled.
\<close>

theorem handlePlayerMove_illegal_noop:
  "length (boardState s) = 9 \<Longrightarrow>
   \<not> gameActive s \<or> isProcessing s \<or>
     (0 \<le> index \<and> index \<le> 8 \<and> boardState s ! nat index \<noteq> Empty) \<Longrightarrow>
   handlePlayerMove s index = (s, [])"
  by (auto simp: handlePlayerMove_def cell_at_def)

theorem handlePlayerMove_illegal_noop_witness:
  "handlePlayerMove
     \<lparr>boardState = [MarkX, MarkX, MarkO, MarkX, MarkO, Empty, MarkO, Empty, Empty],
       gameActive = False, isProcessing = False\<rparr> 5 =
     (\<lparr>boardState = [MarkX, MarkX, MarkO, MarkX, MarkO, Empty, MarkO, Empty, Empty],
       gameActive = False, isProcessing = False\<rparr>, []) \<and>
   handlePlayerMove
     \<lparr>boardState = [MarkX, Empty, Empty, Empty, Empty, Empty, Empty, Empty, Empty],
       gameActive = True, isProcessing = True\<rparr> 4 =
     (\<lparr>boardState = [MarkX, Empty, Empty, Empty, Empty, Empty, Empty, Empty, Empty],
       gameActive = True, isProcessing = True\<rparr>, []) \<and>
   handlePlayerMove
     \<lparr>boardState = [MarkX, Empty, Empty, Empty, MarkO, Empty, Empty, Empty, Empty],
       gameActive = True, isProcessing = False\<rparr> 4 =
     (\<lparr>boardState = [MarkX, Empty, Empty, Empty, MarkO, Empty, Empty, Empty, Empty],
       gameActive = True, isProcessing = False\<rparr>, [])"
  using handlePlayerMove_illegal_noop
    [of "\<lparr>boardState = [MarkX, MarkX, MarkO, MarkX, MarkO, Empty, MarkO, Empty, Empty],
          gameActive = False, isProcessing = False\<rparr>" 5]
    handlePlayerMove_illegal_noop
    [of "\<lparr>boardState = [MarkX, Empty, Empty, Empty, Empty, Empty, Empty, Empty, Empty],
          gameActive = True, isProcessing = True\<rparr>" 4]
    handlePlayerMove_illegal_noop
    [of "\<lparr>boardState = [MarkX, Empty, Empty, Empty, MarkO, Empty, Empty, Empty, Empty],
          gameActive = True, isProcessing = False\<rparr>" 4]
  by simp

section \<open>Restart and the end of a game\<close>








text \<open>
  Claim C8. From a state in which the game is over, no step other than \<^verbatim>\<open>resetGame\<close>
  leads to a state in which it is active: not \<^verbatim>\<open>handlePlayerMove\<close> at any index, not
  \<^verbatim>\<open>aiMove\<close>, and not the timer's function. This holds of every state, and so of every
  reachable one.
\<close>

theorem terminal_stays_terminal:
  "\<not> gameActive s \<Longrightarrow>
   \<not> gameActive (fst (handlePlayerMove s index)) \<and>
   \<not> gameActive (fst (aiMove s u)) \<and>
   \<not> gameActive (fst (aiTimeout s u))"
  by (simp add: handlePlayerMove_def aiMove_def aiTimeout_def)

theorem terminal_stays_terminal_witness:
  "\<not> gameActive (fst (handlePlayerMove
       \<lparr>boardState = [MarkX, MarkX, MarkO, MarkX, MarkO, Empty, MarkO, Empty, Empty],
         gameActive = False, isProcessing = False\<rparr> 5)) \<and>
   \<not> gameActive (fst (aiMove
       \<lparr>boardState = [MarkX, MarkX, MarkO, MarkX, MarkO, Empty, MarkO, Empty, Empty],
         gameActive = False, isProcessing = False\<rparr> (1 / 2))) \<and>
   \<not> gameActive (fst (aiTimeout
       \<lparr>boardState = [MarkX, MarkX, MarkO, MarkX, MarkO, Empty, MarkO, Empty, Empty],
         gameActive = False, isProcessing = False\<rparr> (1 / 2)))"
  using terminal_stays_terminal
    [of "\<lparr>boardState = [MarkX, MarkX, MarkO, MarkX, MarkO, Empty, MarkO, Empty, Empty],
          gameActive = False, isProcessing = False\<rparr>" 5 "1 / 2"]
  by simp

text \<open>
  Claim C9. On the board of every reachable state at most one of the two marks has a
  filled line, so \<^verbatim>\<open>checkWinner\<close> never has two winners to choose from.
\<close>

theorem reachable_one_winner:
  "reachable s \<Longrightarrow> \<not> (has_line (boardState s) PLAYER \<and> has_line (boardState s) AI)"
  using reachable_invariant[of s] by (simp add: game_invariant_def)

theorem reachable_one_winner_witness:
  "\<not> (has_line [MarkX, MarkX, MarkO, MarkX, MarkO, Empty, MarkO, Empty, Empty] PLAYER \<and>
      has_line [MarkX, MarkX, MarkO, MarkX, MarkO, Empty, MarkO, Empty, Empty] AI)"
  using reachable_one_winner [OF reachable_agent_win] by simp

end
